theory Spec2Isabelle
  imports Main
begin

section \<open>Strings\<close>

text \<open>
  Python strings are modelled as \<open>string\<close>; a character stands for a code point
  below 256, which covers the tokens, keys and addresses the program handles.  \<open>None\<close>
  of an optional value is Python's \<open>None\<close>.
\<close>

definition startswith :: "string \<Rightarrow> string \<Rightarrow> bool" where
  "startswith s p = (take (length p) s = p)"

text \<open>
  \<open>str.isspace\<close> on the code points below 256: TAB, LF, VT, FF, CR, the four
  separators 0x1C..0x1F, the space, NEL (0x85) and the no-break space (0xA0).
\<close>

definition isspace :: "char \<Rightarrow> bool" where
  "isspace c = (let n = (of_char c :: nat) in
     (9 \<le> n \<and> n \<le> 13) \<or> (28 \<le> n \<and> n \<le> 32) \<or> n = 133 \<or> n = 160)"

definition strip :: "string \<Rightarrow> string" where
  "strip s = rev (dropWhile isspace (rev (dropWhile isspace s)))"

text \<open>
  Reading a file in text mode (\<open>Path.read_text\<close>, universal newlines) turns
  \<open>\r\n\<close> and a lone \<open>\r\<close> into \<open>\n\<close>.
\<close>

fun universal_newlines :: "string \<Rightarrow> string" where
  "universal_newlines [] = []"
| "universal_newlines [c] = (if c = CHR 0x0D then [CHR 0x0A] else [c])"
| "universal_newlines (c # d # cs) =
     (if c = CHR 0x0D \<and> d = CHR 0x0A then CHR 0x0A # universal_newlines cs
      else if c = CHR 0x0D then CHR 0x0A # universal_newlines (d # cs)
      else c # universal_newlines (d # cs))"

section \<open>Token validity\<close>

text \<open>
  The test \<^verbatim>\<open>refresh_token and refresh_token.startswith("ey")\<close> of
  \<open>update_auth\<close> and \<open>update_cursor_auth\<close>: \<open>None\<close> and the empty string
  are falsy.
\<close>

definition token_valid :: "string option \<Rightarrow> bool" where
  "token_valid rt = (case rt of None \<Rightarrow> False | Some t \<Rightarrow> t \<noteq> [] \<and> startswith t ''ey'')"

section \<open>The token file\<close>

text \<open>
  The file \<^verbatim>\<open>~/.cursor_auth/token\<close>: \<open>None\<close> when it does not exist, its text
  otherwise.  \<open>write_text\<close> stores the text as it is (no translation of line ends, as
  on Linux and macOS), \<open>read_text\<close> reads it in text mode.  Filesystem operations are
  taken to succeed.
\<close>

type_synonym token_file = "string option"

definition get_token :: "token_file \<Rightarrow> string option" where
  "get_token tf = (case tf of None \<Rightarrow> None | Some txt \<Rightarrow> Some (strip (universal_newlines txt)))"

definition save_token :: "string \<Rightarrow> token_file \<Rightarrow> token_file" where
  "save_token token tf = Some token"

section \<open>The key-value table\<close>

text \<open>
  \<open>itemTable (key, value)\<close> of the SQLite file \<^verbatim>\<open>state.vscdb\<close>: the rows in table
  order.  A \<open>SELECT\<close> returns the matching rows in that order.
\<close>

type_synonym table = "(string \<times> string) list"

definition ascii_lower :: "char \<Rightarrow> char" where
  "ascii_lower c = (let n = (of_char c :: nat) in
     if 65 \<le> n \<and> n \<le> 90 then char_of (n + 32) else c)"

text \<open>
  \<^verbatim>\<open>key LIKE 'cursorAuth/%'\<close>.  SQLite's \<open>LIKE\<close> ignores the case of ASCII letters.
\<close>

definition like_cursorAuth :: "string \<Rightarrow> bool" where
  "like_cursorAuth k =
     (map ascii_lower (take (length ''cursorAuth/'') k) = map ascii_lower ''cursorAuth/'')"

definition delete_auth_rows :: "table \<Rightarrow> table" where
  "delete_auth_rows tbl = filter (\<lambda>(k, v). \<not> like_cursorAuth k) tbl"

definition select_auth_rows :: "table \<Rightarrow> table" where
  "select_auth_rows tbl = filter (\<lambda>(k, v). like_cursorAuth k) tbl"

definition count_key :: "table \<Rightarrow> string \<Rightarrow> nat" where
  "count_key tbl key = length (filter (\<lambda>(k, v). k = key) tbl)"

definition insert_row :: "table \<Rightarrow> string \<Rightarrow> string \<Rightarrow> table" where
  "insert_row tbl key val = tbl @ [(key, val)]"

definition update_rows :: "table \<Rightarrow> string \<Rightarrow> string \<Rightarrow> table" where
  "update_rows tbl key val = map (\<lambda>(k, v). if k = key then (k, val) else (k, v)) tbl"

text \<open>
  The body of the loop over \<open>updates\<close> in \<open>update_auth\<close>: \<open>SELECT COUNT(*)\<close>, then
  \<open>INSERT\<close> when the key is not there and \<open>UPDATE\<close> when it is.
\<close>

definition upsert :: "table \<Rightarrow> string \<Rightarrow> string \<Rightarrow> table" where
  "upsert tbl key val =
     (if count_key tbl key = 0 then insert_row tbl key val else update_rows tbl key val)"

subsection \<open>Connections and faults\<close>

text \<open>
  A connection of Python's \<open>sqlite3\<close> with its default transaction control: a
  transaction is opened before the first \<open>INSERT\<close>, \<open>UPDATE\<close> or \<open>DELETE\<close>,
  \<open>commit\<close> makes the pending rows durable, and \<open>close\<close> without a \<open>commit\<close>
  loses them.
\<close>

record connection =
  durable :: table
  pending :: table

definition connect :: "table \<Rightarrow> connection" where
  "connect tbl = \<lparr>durable = tbl, pending = tbl\<rparr>"

definition execute :: "(table \<Rightarrow> table) \<Rightarrow> connection \<Rightarrow> connection" where
  "execute stmt c = c\<lparr>pending := stmt (pending c)\<rparr>"

definition commit :: "connection \<Rightarrow> connection" where
  "commit c = c\<lparr>durable := pending c\<rparr>"

definition close :: "connection \<Rightarrow> table" where
  "close c = durable c"

text \<open>
  What the database does to one session is a parameter: \<open>FailAt n\<close> makes the
  \<open>n\<close>-th operation of the session (counted from 0) raise \<open>sqlite3.Error\<close>.
\<close>

datatype db_fault = NoFault | FailAt nat

section \<open>clear_auth_info\<close>

record world =
  token_file :: token_file
  db :: table

text \<open>
  The token file is removed first.  Operations of the session: 0 is the construction of
  \<open>CursorAuthManager\<close> with \<open>connect\<close>, 1 the \<open>DELETE\<close>, 2 the \<open>commit\<close>.  Every
  exception ends in \<open>return False\<close>, after \<open>close\<close>.
\<close>

definition clear_auth_info :: "world \<Rightarrow> db_fault \<Rightarrow> bool \<times> world" where
  "clear_auth_info w fault =
     (let w1 = w\<lparr>token_file := None\<rparr> in
      if fault = FailAt 0 then (False, w1)
      else let c = connect (db w1) in
        if fault = FailAt 1 then (False, w1\<lparr>db := close c\<rparr>)
        else let c1 = execute delete_auth_rows c in
          if fault = FailAt 2 then (False, w1\<lparr>db := close c1\<rparr>)
          else (True, w1\<lparr>db := close (commit c1)\<rparr>))"

section \<open>CursorAuthManager\<close>

subsection \<open>update_auth\<close>

definition auth_updates :: "string option \<Rightarrow> string option \<Rightarrow> (string \<times> string) list" where
  "auth_updates em rt =
     [(''cursorAuth/cachedSignUpType'', ''Auth_0''),
      (''cursorAuth/signUpType'', ''Auth_0''),
      (''cursorAuth/isLoggedIn'', ''true''),
      (''cursorAuth/stripeMembershipType'', ''free_trial'')]
     @ (case em of None \<Rightarrow> []
        | Some e \<Rightarrow> [(''cursorAuth/cachedEmail'', e), (''cursorAuth/email'', e)])
     @ (case rt of None \<Rightarrow> []
        | Some jwt_token \<Rightarrow>
            if token_valid rt then
              [(''cursorAuth/cachedAccessToken'', jwt_token),
               (''cursorAuth/accessToken'', jwt_token),
               (''cursorAuth/token'', jwt_token),
               (''cursorAuth/refreshToken'', jwt_token),
               (''cursorAuth/cachedRefreshToken'', jwt_token)]
            else [])"

text \<open>
  The loop \<^verbatim>\<open>for key, value in updates\<close>; the \<open>i\<close>-th operation of the session is
  the upsert at the head of the list.  \<open>Inl\<close> is \<open>sqlite3.Error\<close>, with the connection
  as it was when the error was raised.
\<close>

fun run_updates :: "db_fault \<Rightarrow> nat \<Rightarrow> (string \<times> string) list \<Rightarrow> connection
    \<Rightarrow> connection + connection" where
  "run_updates fault i [] c = Inr c"
| "run_updates fault i ((key, val) # us) c =
     (if fault = FailAt i then Inl c
      else run_updates fault (Suc i) us (execute (\<lambda>t. upsert t key val) c))"

text \<open>
  Operations of the session: 0 is \<open>connect\<close> with \<open>CREATE TABLE IF NOT EXISTS\<close>,
  1 to \<open>n\<close> the upserts of the \<open>n\<close> updates, \<open>n + 1\<close> the \<open>commit\<close>, \<open>n + 2\<close> the
  \<open>SELECT\<close> that logs the rows.  The argument \<open>access_token\<close> is the second of the three.
\<close>

definition update_auth :: "table \<Rightarrow> db_fault \<Rightarrow> string option \<Rightarrow> string option
    \<Rightarrow> string option \<Rightarrow> bool \<times> table" where
  "update_auth tbl fault em access_token rt =
     (let updates = auth_updates em rt; n = length updates in
      if fault = FailAt 0 then (False, tbl)
      else case run_updates fault 1 updates (connect tbl) of
          Inl c \<Rightarrow> (False, close c)
        | Inr c \<Rightarrow>
            if fault = FailAt (n + 1) then (False, close c)
            else let c1 = commit c in
              if fault = FailAt (n + 2) then (False, close c1)
              else (True, close c1))"

subsection \<open>get_auth_info\<close>

text \<open>\<^verbatim>\<open>key.split('/')[-1]\<close>: what follows the last slash.\<close>

definition last_segment :: "string \<Rightarrow> string" where
  "last_segment key = rev (takeWhile (\<lambda>c. c \<noteq> CHR ''/'') (rev key))"

text \<open>
  The literal of the source for an unknown e-mail address: two characters beyond code
  point 255 that mean "unknown", given here by the six bytes of their UTF-8 encoding.
\<close>

definition unknown_email :: string where
  "unknown_email = [CHR 0xE6, CHR 0x9C, CHR 0xAA, CHR 0xE7, CHR 0x9F, CHR 0xA5]"

text \<open>
  The returned dict: a field is absent (\<open>None\<close>), or present with a string or with
  Python's \<open>None\<close> (\<open>Some None\<close>).
\<close>

type_synonym auth_info = "string \<rightharpoonup> string option"

definition collect_fields :: "table \<Rightarrow> auth_info" where
  "collect_fields rows = fold (\<lambda>(key, val) result. result(last_segment key \<mapsto> Some val)) rows Map.empty"

definition setdefault :: "auth_info \<Rightarrow> string \<Rightarrow> string option \<Rightarrow> auth_info" where
  "setdefault result field val = (if field \<in> dom result then result else result(field \<mapsto> val))"

definition sentinel_info :: auth_info where
  "sentinel_info = [''email'' \<mapsto> Some unknown_email, ''accessToken'' \<mapsto> None,
     ''refreshToken'' \<mapsto> None]"

text \<open>Operations of the session: 0 is \<open>connect\<close>, 1 the \<open>SELECT\<close>.\<close>

definition get_auth_info :: "table \<Rightarrow> db_fault \<Rightarrow> auth_info" where
  "get_auth_info tbl fault =
     (if fault = FailAt 0 \<or> fault = FailAt 1 then sentinel_info
      else let result = collect_fields (select_auth_rows tbl);
               result = setdefault result ''email'' (Some unknown_email);
               result = setdefault result ''accessToken'' None;
               result = setdefault result ''refreshToken'' None
           in result)"

section \<open>update_cursor_auth\<close>

subsection \<open>The server\<close>

text \<open>
  The dict of a response of \<^verbatim>\<open>/auth/get-cursor-token\<close>, read with \<open>data.get\<close>:
  \<open>None\<close> is a missing key (for the four strings, a null as well), and the values have
  the types of the account of the data model: strings, and an integer for
  \<open>pull_count\<close>.
\<close>

record account_data =
  email :: "string option"
  password :: "string option"
  refresh_token :: "string option"
  status :: "string option"
  pull_count :: "int option"

text \<open>
  What one request to \<^verbatim>\<open>/auth/get-cursor-token\<close> ends in: a
  \<open>requests.RequestException\<close> (no connection, or \<open>raise_for_status\<close> on an HTTP
  error), a body that is no dict (the \<open>ValueError\<close> of the source), or a dict.
\<close>

datatype primary_response = RequestError | NotADict | AccountData account_data

text \<open>
  What the request to \<^verbatim>\<open>/auth/get-refresh-token\<close> ends in: any exception, or a dict
  with its \<open>refresh_token\<close>.
\<close>

datatype refresh_response = RefreshError | RefreshData "string option"

text \<open>
  What happens in one attempt, should the code get that far: the two responses and the
  fault of the session of \<open>update_auth\<close>.
\<close>

record exchange =
  primary :: primary_response
  secondary :: refresh_response
  commit_fault :: db_fault

subsection \<open>One attempt\<close>

definition max_retries :: nat where
  "max_retries = 3"

definition truthy :: "string option \<Rightarrow> bool" where
  "truthy v = (case v of None \<Rightarrow> False | Some s \<Rightarrow> s \<noteq> [])"

text \<open>\<^verbatim>\<open>data.get("pull_count", 0)\<close>\<close>

definition pull_count_of :: "account_data \<Rightarrow> int" where
  "pull_count_of d = (case pull_count d of None \<Rightarrow> 0 | Some n \<Rightarrow> n)"

text \<open>\<^verbatim>\<open>status in ["EXCEEDED", "DEPLETED"] or pull_count >= 5\<close>\<close>

definition account_unusable :: "account_data \<Rightarrow> bool" where
  "account_unusable d =
     (status d \<in> set [Some ''EXCEEDED'', Some ''DEPLETED''] \<or> pull_count_of d \<ge> 5)"

text \<open>
  The choice of the token: the account's \<open>refresh_token\<close> when it is valid, else the
  one of the second request.  The result says whether the second request was made, and
  the token, \<open>None\<close> when the attempt ends here with \<open>continue\<close>.
\<close>

definition resolve_token :: "account_data \<Rightarrow> refresh_response \<Rightarrow> bool \<times> string option" where
  "resolve_token d sec =
     (if token_valid (refresh_token d) then (False, refresh_token d)
      else case sec of
          RefreshError \<Rightarrow> (True, None)
        | RefreshData rt \<Rightarrow> if token_valid rt then (True, rt) else (True, None))"

text \<open>
  What an attempt does that can be seen from outside: the request for an account, the
  request for a refresh token, the call of \<open>update_auth\<close> with its result.
\<close>

datatype event = Fetch nat | Refresh nat | Commit nat bool

datatype step = Continue | Return bool

text \<open>
  The body of \<^verbatim>\<open>for attempt in range(max_retries)\<close>.  After a failed
  \<open>update_auth\<close> the body either says \<open>continue\<close> or, in the last attempt, reaches
  its end: both go on with the loop.  \<open>CursorAuthManager()\<close> is taken to succeed.
\<close>

definition attempt_body :: "exchange \<Rightarrow> nat \<Rightarrow> table \<Rightarrow> event list \<times> step \<times> table" where
  "attempt_body x attempt tbl =
     (case primary x of
        RequestError \<Rightarrow>
          ([Fetch attempt], if attempt < max_retries - 1 then Continue else Return False, tbl)
      | NotADict \<Rightarrow> ([Fetch attempt], Return False, tbl)
      | AccountData d \<Rightarrow>
          (case resolve_token d (secondary x) of
             (asked, resolved) \<Rightarrow>
               (let evs = Fetch attempt # (if asked then [Refresh attempt] else [])
                in case resolved of
                    None \<Rightarrow> (evs, Continue, tbl)
                  | Some tok \<Rightarrow>
                      (let rt = Some tok; access_token = rt
                       in if account_unusable d then
                            (evs, if attempt < max_retries - 1 then Continue else Return False,
                             tbl)
                          else if \<not> (truthy (email d) \<and> truthy access_token \<and> truthy rt)
                          then (evs, Continue, tbl)
                          else case update_auth tbl (commit_fault x) (email d) access_token rt of
                              (success, tbl') \<Rightarrow>
                                (evs @ [Commit attempt success],
                                 if success then Return True else Continue, tbl')))))"

subsection \<open>The loop and the whole run\<close>

text \<open>
  \<open>env a\<close> is what happens in attempt \<open>a\<close>.  The loop over the attempts, and
  \<^verbatim>\<open>return False\<close> after it.
\<close>

fun retry_loop :: "(nat \<Rightarrow> exchange) \<Rightarrow> nat list \<Rightarrow> table \<Rightarrow> event list \<times> bool \<times> table" where
  "retry_loop env [] tbl = ([], False, tbl)"
| "retry_loop env (attempt # rest) tbl =
     (case attempt_body (env attempt) attempt tbl of
        (evs, Return b, tbl') \<Rightarrow> (evs, b, tbl')
      | (evs, Continue, tbl') \<Rightarrow>
          (case retry_loop env rest tbl' of (evs', b, tbl'') \<Rightarrow> (evs @ evs', b, tbl'')))"

record run =
  result :: bool
  events :: "event list"
  final :: world

text \<open>
  \<open>clear_fault\<close> is the fault of the session of \<open>clear_auth_info\<close>, whose result
  the source does not look at.
\<close>

definition update_cursor_auth :: "(nat \<Rightarrow> exchange) \<Rightarrow> db_fault \<Rightarrow> world \<Rightarrow> run" where
  "update_cursor_auth env clear_fault w =
     (let token = get_token (token_file w) in
      if \<not> truthy token then \<lparr>result = False, events = [], final = w\<rparr>
      else case clear_auth_info w clear_fault of
        (cleared, w1) \<Rightarrow>
          (case retry_loop env [0..<max_retries] (db w1) of
             (evs, b, tbl) \<Rightarrow> \<lparr>result = b, events = evs, final = w1\<lparr>db := tbl\<rparr>\<rparr>))"

definition fetches :: "event list \<Rightarrow> nat" where
  "fetches evs = length (filter (\<lambda>e. case e of Fetch a \<Rightarrow> True | _ \<Rightarrow> False) evs)"


text \<open>The five keys under which \<open>update_auth\<close> stores the token.\<close>

definition token_alias_keys :: "string list" where
  "token_alias_keys = [''cursorAuth/cachedAccessToken'', ''cursorAuth/accessToken'',
     ''cursorAuth/token'', ''cursorAuth/refreshToken'', ''cursorAuth/cachedRefreshToken'']"

text \<open>The table has a row with key \<open>k\<close>, and every such row holds \<open>v\<close>.\<close>

definition key_holds :: "table \<Rightarrow> string \<Rightarrow> string \<Rightarrow> bool" where
  "key_holds tbl k v = (k \<in> fst ` set tbl \<and> (\<forall>v'. (k, v') \<in> set tbl \<longrightarrow> v' = v))"

subsection \<open>Example accounts, servers and states\<close>

definition usable_account :: account_data where
  "usable_account = \<lparr>email = Some ''a@b.com'', password = Some ''pw'',
     refresh_token = Some ''ey.xyz'', status = Some ''ACTIVE'', pull_count = Some 0\<rparr>"



definition answer :: "account_data \<Rightarrow> db_fault \<Rightarrow> exchange" where
  "answer d fault = \<lparr>primary = AccountData d, secondary = RefreshError, commit_fault = fault\<rparr>"

definition network_down :: "nat \<Rightarrow> exchange" where
  "network_down a = \<lparr>primary = RequestError, secondary = RefreshError, commit_fault = NoFault\<rparr>"

definition network_down_once :: "nat \<Rightarrow> exchange" where
  "network_down_once a = (if a = 0 then network_down a else answer usable_account NoFault)"

definition commit_fails_once :: "nat \<Rightarrow> exchange" where
  "commit_fails_once a = answer usable_account (if a = 0 then FailAt 1 else NoFault)"

definition commit_fails_always :: "nat \<Rightarrow> exchange" where
  "commit_fails_always a = answer usable_account (FailAt 1)"

definition seeded :: world where
  "seeded = \<lparr>token_file = Some ''tok-1'', db = []\<rparr>"

section \<open>Token validity is the prefix test\<close>

lemma startswith_append: "startswith s p \<longleftrightarrow> (\<exists>rest. s = p @ rest)"
  unfolding startswith_def
  by (metis append_eq_conv_conj append_take_drop_id)

text \<open>
  C3: a string is accepted as a token exactly when it is not empty and begins with
  \<open>ey\<close>; whatever follows the prefix does not matter, and a string that does not
  begin with \<open>ey\<close> is rejected.
\<close>

theorem token_valid_iff_prefix_ey:
  "(token_valid (Some t) \<longleftrightarrow> t \<noteq> [] \<and> (\<exists>rest. t = ''ey'' @ rest))
   \<and> token_valid (Some (''ey'' @ rest))
   \<and> (\<not> startswith t ''ey'' \<longrightarrow> \<not> token_valid (Some t))"
  by (simp add: token_valid_def startswith_append)

theorem token_valid_iff_prefix_ey_witness:
  "token_valid (Some ''ey.x'') \<and> \<not> startswith ''abc'' ''ey'' \<and> \<not> token_valid (Some ''abc'')
   \<and> \<not> token_valid (Some [])"
  using token_valid_iff_prefix_ey [of "''abc''" "''.x''"]
    token_valid_iff_prefix_ey [of "[]" "''.x''"]
  by (simp add: startswith_def)

section \<open>The token file: save, then get\<close>

lemma universal_newlines_id: "CHR 0x0D \<notin> set t \<Longrightarrow> universal_newlines t = t"
  by (induction t rule: universal_newlines.induct) auto

lemma dropWhile_id: "t = [] \<or> \<not> P (hd t) \<Longrightarrow> dropWhile P t = t"
  by (cases t) auto

lemma strip_id:
  assumes "t = [] \<or> (\<not> isspace (hd t) \<and> \<not> isspace (last t))"
  shows "strip t = t"
proof (cases "t = []")
  case True
  then show ?thesis by (simp add: strip_def)
next
  case False
  with assms have h: "\<not> isspace (hd t)" and l: "\<not> isspace (last t)" by auto
  from h False have "dropWhile isspace t = t" by (simp add: dropWhile_id)
  moreover from l False have "dropWhile isspace (rev t) = rev t"
    by (intro dropWhile_id) (simp add: hd_rev)
  ultimately show ?thesis by (simp add: strip_def)
qed

text \<open>
  C8, as stated, fails: a token saved with a line feed at its end comes back without it,
  since \<open>get_token\<close> strips what it reads.
\<close>

theorem save_then_get_exact_counterexample:
  "get_token (save_token (''tok'' @ [CHR 0x0A]) None) = Some ''tok''
   \<and> get_token (save_token (''tok'' @ [CHR 0x0A]) None) \<noteq> Some (''tok'' @ [CHR 0x0A])"
  by (simp add: get_token_def save_token_def strip_def isspace_def)

text \<open>
  C8, amended: after \<open>save_token t\<close>, whatever the file held before, \<open>get_token\<close>
  returns \<open>t\<close> as read in text mode, without the whitespace at its two ends; that is
  \<open>t\<close> itself when \<open>t\<close> has no carriage return and neither begins nor ends with
  whitespace.
\<close>

theorem save_then_get_stripped:
  "get_token (save_token t tf) = Some (strip (universal_newlines t))
   \<and> (CHR 0x0D \<notin> set t \<and> (t = [] \<or> (\<not> isspace (hd t) \<and> \<not> isspace (last t)))
        \<longrightarrow> get_token (save_token t tf) = Some t)"
  by (simp add: get_token_def save_token_def universal_newlines_id strip_id)

theorem save_then_get_stripped_witness:
  "get_token (save_token '' tok-2 '' (Some ''tok-1'')) = Some ''tok-2''
   \<and> CHR 0x0D \<notin> set ''tok-2'' \<and> \<not> isspace (hd ''tok-2'') \<and> \<not> isspace (last ''tok-2'')
   \<and> get_token (save_token ''tok-2'' (Some ''tok-1'')) = Some ''tok-2''"
  using save_then_get_stripped [of "''tok-2''" "Some ''tok-1''"]
    save_then_get_stripped [of "'' tok-2 ''" "Some ''tok-1''"]
  by (simp add: strip_def isspace_def)

section \<open>Clearing and reading the namespace\<close>

lemma select_after_delete: "select_auth_rows (delete_auth_rows tbl) = []"
  by (induction tbl) (auto simp: select_auth_rows_def delete_auth_rows_def)

lemma clear_auth_info_NoFault:
  "clear_auth_info w NoFault = (True, \<lparr>token_file = None, db = delete_auth_rows (db w)\<rparr>)"
  by (simp add: clear_auth_info_def connect_def execute_def commit_def close_def)

lemma clear_auth_info_token_file: "token_file (snd (clear_auth_info w fault)) = None"
  by (simp add: clear_auth_info_def Let_def)

lemma get_auth_info_no_rows:
  "select_auth_rows tbl = [] \<Longrightarrow> get_auth_info tbl fault = sentinel_info"
  by (auto simp: get_auth_info_def collect_fields_def setdefault_def sentinel_info_def)

lemma dom_fold_fields:
  "dom (fold (\<lambda>(key, val) result. result(last_segment key \<mapsto> Some val)) rows m)
     = dom m \<union> last_segment ` fst ` set rows"
  by (induction rows arbitrary: m) auto

lemma dom_collect_fields: "dom (collect_fields rows) = last_segment ` fst ` set rows"
  by (simp add: collect_fields_def dom_fold_fields)

lemma setdefault_apply:
  "setdefault m k v x = (if x = k \<and> k \<notin> dom m then Some v else m x)"
  by (simp add: setdefault_def)

lemma dom_setdefault: "dom (setdefault m k v) = insert k (dom m)"
  by (auto simp: setdefault_def)

text \<open>
  C4, as stated, fails: after \<open>clear_auth_info\<close>, \<open>get_auth_info\<close> returns a dict with
  the three fields \<open>email\<close>, \<open>accessToken\<close> and \<open>refreshToken\<close>, not an empty one.
\<close>

theorem clear_then_read_not_empty_counterexample:
  "dom (get_auth_info (db (snd (clear_auth_info
      \<lparr>token_file = Some ''tok-1'', db = [(''cursorAuth/email'', ''a@b.com'')]\<rparr> NoFault))) NoFault)
     = {''email'', ''accessToken'', ''refreshToken''}
   \<and> dom (get_auth_info (db (snd (clear_auth_info
      \<lparr>token_file = Some ''tok-1'', db = [(''cursorAuth/email'', ''a@b.com'')]\<rparr> NoFault))) NoFault)
     \<noteq> {}
   \<and> get_auth_info (db (snd (clear_auth_info
      \<lparr>token_file = Some ''tok-1'', db = [(''cursorAuth/email'', ''a@b.com'')]\<rparr> NoFault))) NoFault
      ''email'' = Some (Some unknown_email)"
proof -
  let ?w = "\<lparr>token_file = Some ''tok-1'', db = [(''cursorAuth/email'', ''a@b.com'')]\<rparr>"
  have e: "get_auth_info (db (snd (clear_auth_info ?w NoFault))) NoFault = sentinel_info"
    by (simp add: clear_auth_info_NoFault get_auth_info_no_rows select_after_delete)
  have "dom sentinel_info = {''email'', ''accessToken'', ''refreshToken''}"
    by (auto simp: sentinel_info_def)
  moreover have "sentinel_info ''email'' = Some (Some unknown_email)"
    by (simp add: sentinel_info_def)
  ultimately show ?thesis unfolding e by simp
qed

text \<open>
  C4, amended: in every state, after a \<open>clear_auth_info\<close> that succeeds,
  \<open>get_auth_info\<close> returns exactly the three default fields (the e-mail address of the
  source for "unknown", and \<open>None\<close> for the two tokens): nothing stored under the
  namespace is left.
\<close>

theorem clear_then_read_defaults:
  "fst (clear_auth_info w NoFault)
   \<and> get_auth_info (db (snd (clear_auth_info w NoFault))) fault = sentinel_info
   \<and> sentinel_info = [''email'' \<mapsto> Some unknown_email, ''accessToken'' \<mapsto> None,
        ''refreshToken'' \<mapsto> None]"
  by (simp add: clear_auth_info_NoFault get_auth_info_no_rows select_after_delete
      sentinel_info_def)

text \<open>
  C7, as stated, fails on the value: with no \<open>email\<close> row, the field is not the string
  \<open>unknown\<close> but the literal of the source.
\<close>

theorem read_email_default_counterexample:
  "get_auth_info [] NoFault ''email'' \<noteq> Some (Some ''unknown'')
   \<and> get_auth_info [] NoFault ''email'' = Some (Some unknown_email)"
  by (simp add: get_auth_info_no_rows select_auth_rows_def sentinel_info_def unknown_email_def)

text \<open>
  C7, amended: for every table and every fault of the database, \<open>get_auth_info\<close>
  returns a dict that has the fields \<open>email\<close>, \<open>accessToken\<close> and \<open>refreshToken\<close>; a
  field with no row under the namespace has its default, which is the literal of the
  source for the e-mail address and \<open>None\<close> for the two tokens.
\<close>

theorem read_defaults_for_absent_fields:
  "{''email'', ''accessToken'', ''refreshToken''} \<subseteq> dom (get_auth_info tbl fault)
   \<and> (''email'' \<notin> last_segment ` fst ` set (select_auth_rows tbl)
        \<longrightarrow> get_auth_info tbl fault ''email'' = Some (Some unknown_email))
   \<and> (''accessToken'' \<notin> last_segment ` fst ` set (select_auth_rows tbl)
        \<longrightarrow> get_auth_info tbl fault ''accessToken'' = Some None)
   \<and> (''refreshToken'' \<notin> last_segment ` fst ` set (select_auth_rows tbl)
        \<longrightarrow> get_auth_info tbl fault ''refreshToken'' = Some None)"
proof (cases "fault = FailAt 0 \<or> fault = FailAt 1")
  case True
  then have "get_auth_info tbl fault = sentinel_info" by (auto simp: get_auth_info_def)
  then show ?thesis by (simp add: sentinel_info_def)
next
  case False
  let ?r = "collect_fields (select_auth_rows tbl)"
  from False have g: "get_auth_info tbl fault =
      setdefault (setdefault (setdefault ?r ''email'' (Some unknown_email)) ''accessToken'' None)
        ''refreshToken'' None"
    by (simp add: get_auth_info_def)
  have d: "dom ?r = last_segment ` fst ` set (select_auth_rows tbl)"
    by (rule dom_collect_fields)
  show ?thesis
    unfolding g d [symmetric]
    by (simp add: setdefault_apply dom_setdefault)
qed

theorem read_defaults_for_absent_fields_witness:
  "''email'' \<notin> last_segment ` fst ` set (select_auth_rows [(''cursorAuth/accessToken'', ''ey.x'')])
   \<and> get_auth_info [(''cursorAuth/accessToken'', ''ey.x'')] NoFault ''email''
       = Some (Some unknown_email)
   \<and> ''refreshToken'' \<notin> last_segment ` fst ` set (select_auth_rows [(''cursorAuth/accessToken'', ''ey.x'')])
   \<and> get_auth_info [(''cursorAuth/accessToken'', ''ey.x'')] NoFault ''refreshToken'' = Some None
   \<and> get_auth_info [(''cursorAuth/accessToken'', ''ey.x'')] NoFault ''accessToken''
       = Some (Some ''ey.x'')"
  using read_defaults_for_absent_fields [of "[(''cursorAuth/accessToken'', ''ey.x'')]" NoFault]
  by (simp add: select_auth_rows_def like_cursorAuth_def ascii_lower_def last_segment_def
      get_auth_info_def collect_fields_def setdefault_def)

section \<open>update_auth: one transaction\<close>

lemma run_updates_durable:
  "run_updates fault i us c = Inl c' \<or> run_updates fault i us c = Inr c'
     \<Longrightarrow> durable c' = durable c"
  by (induction fault i us c rule: run_updates.induct)
     (auto simp: execute_def split: if_splits)

lemma run_updates_Inr_fault:
  "run_updates (FailAt n) i us c = Inr c' \<Longrightarrow> n < i \<or> i + length us \<le> n"
  by (induction "FailAt n" i us c rule: run_updates.induct)
     (auto split: if_splits)

lemma run_updates_no_hit:
  "\<forall>j. fault = FailAt j \<longrightarrow> j < i \<or> i + length us \<le> j \<Longrightarrow>
   run_updates fault i us c
     = Inr (c\<lparr>pending := fold (\<lambda>(k, v) t. upsert t k v) us (pending c)\<rparr>)"
proof (induction fault i us c rule: run_updates.induct)
  case (1 fault i c)
  then show ?case by simp
next
  case (2 fault i key val us c)
  from "2.prems" have nf: "fault \<noteq> FailAt i" by auto
  from "2.prems" have "\<forall>j. fault = FailAt j \<longrightarrow> j < Suc i \<or> Suc i + length us \<le> j"
    by auto
  with "2.IH" nf show ?case by (simp add: execute_def)
qed

lemma update_auth_no_hit:
  assumes "\<forall>j. fault = FailAt j \<longrightarrow> length (auth_updates em rt) + 2 < j"
  shows "update_auth tbl fault em a rt
     = (True, fold (\<lambda>(k, v) t. upsert t k v) (auth_updates em rt) tbl)"
proof -
  from assms have "\<forall>j. fault = FailAt j \<longrightarrow> j < 1 \<or> 1 + length (auth_updates em rt) \<le> j"
    by auto
  then have "run_updates fault 1 (auth_updates em rt) (connect tbl)
      = Inr ((connect tbl)\<lparr>pending :=
          fold (\<lambda>(k, v) t. upsert t k v) (auth_updates em rt) (pending (connect tbl))\<rparr>)"
    by (rule run_updates_no_hit)
  moreover from assms have "fault \<noteq> FailAt 0"
    "fault \<noteq> FailAt (length (auth_updates em rt) + 1)"
    "fault \<noteq> FailAt (length (auth_updates em rt) + 2)"
    by auto
  ultimately show ?thesis
    by (simp add: update_auth_def Let_def connect_def commit_def close_def)
qed

lemma update_auth_NoFault:
  "update_auth tbl NoFault em a rt
     = (True, fold (\<lambda>(k, v) t. upsert t k v) (auth_updates em rt) tbl)"
  by (rule update_auth_no_hit) simp

lemma update_auth_after_commit:
  "update_auth tbl (FailAt (length (auth_updates em rt) + 2)) em a rt
     = (False, fold (\<lambda>(k, v) t. upsert t k v) (auth_updates em rt) tbl)"
proof -
  have "run_updates (FailAt (length (auth_updates em rt) + 2)) 1 (auth_updates em rt) (connect tbl)
      = Inr ((connect tbl)\<lparr>pending :=
          fold (\<lambda>(k, v) t. upsert t k v) (auth_updates em rt) (pending (connect tbl))\<rparr>)"
    by (rule run_updates_no_hit) simp
  then show ?thesis
    by (simp add: update_auth_def Let_def connect_def commit_def close_def)
qed

text \<open>
  C6, as stated, fails: when the third operation of the session raises, after two keys
  were written, \<open>update_auth\<close> returns \<open>False\<close> and the table is as it was before the
  call, without the two rows.
\<close>

theorem partial_commit_persists_counterexample:
  "update_auth [] (FailAt 3) (Some ''a@b.com'') None (Some ''ey.x'') = (False, [])
   \<and> (''cursorAuth/cachedSignUpType'', ''Auth_0'')
       \<notin> set (snd (update_auth [] (FailAt 3) (Some ''a@b.com'') None (Some ''ey.x'')))"
  by (simp add: update_auth_def auth_updates_def token_valid_def startswith_def connect_def
      execute_def close_def upsert_def count_key_def insert_row_def)

lemma update_auth_fault_before_commit:
  assumes n: "n \<le> length (auth_updates em rt) + 1"
  shows "update_auth tbl (FailAt n) em a rt = (False, tbl)"
proof (cases "run_updates (FailAt n) 1 (auth_updates em rt) (connect tbl)")
  case (Inl c')
  then have "durable c' = tbl"
    using run_updates_durable [of "FailAt n" 1 "auth_updates em rt" "connect tbl" c']
    by (simp add: connect_def)
  with Inl show ?thesis by (simp add: update_auth_def Let_def close_def)
next
  case (Inr c')
  then have d: "durable c' = tbl"
    using run_updates_durable [of "FailAt n" 1 "auth_updates em rt" "connect tbl" c']
    by (simp add: connect_def)
  from Inr have "n < 1 \<or> 1 + length (auth_updates em rt) \<le> n"
    by (rule run_updates_Inr_fault)
  with n have "n = 0 \<or> n = length (auth_updates em rt) + 1" by auto
  with Inr d show ?thesis by (auto simp: update_auth_def Let_def close_def)
qed

text \<open>
  C6, amended: when an operation of the session raises before the commit is done (the
  connection, one of the writes, or the commit itself), \<open>update_auth\<close> returns \<open>False\<close>
  and leaves the table as it was before the call: no write of that call persists.  Only a
  failure after the commit returns \<open>False\<close> with all the writes in the table.
\<close>

theorem failed_commit_leaves_table:
  "(n \<le> length (auth_updates em rt) + 1 \<longrightarrow> update_auth tbl (FailAt n) em a rt = (False, tbl))
   \<and> update_auth tbl (FailAt (length (auth_updates em rt) + 2)) em a rt
       = (False, snd (update_auth tbl NoFault em a rt))"
proof (intro conjI impI)
  assume "n \<le> length (auth_updates em rt) + 1"
  then show "update_auth tbl (FailAt n) em a rt = (False, tbl)"
    by (rule update_auth_fault_before_commit)
next
  show "update_auth tbl (FailAt (length (auth_updates em rt) + 2)) em a rt
       = (False, snd (update_auth tbl NoFault em a rt))"
    unfolding update_auth_after_commit update_auth_NoFault by simp
qed

theorem failed_commit_leaves_table_witness:
  "(2::nat) \<le> length (auth_updates (Some ''a@b.com'') (Some ''ey.x'')) + 1
   \<and> update_auth [(''cursorAuth/email'', ''old'')] (FailAt 2) (Some ''a@b.com'') None (Some ''ey.x'')
       = (False, [(''cursorAuth/email'', ''old'')])"
  using failed_commit_leaves_table [of 2 "Some ''a@b.com''" "Some ''ey.x''"
      "[(''cursorAuth/email'', ''old'')]" None]
  by (simp add: auth_updates_def)

section \<open>update_auth: the token rows\<close>

lemma count_key_0: "count_key tbl k = 0 \<longleftrightarrow> k \<notin> fst ` set tbl"
  by (induction tbl) (auto simp: count_key_def)

lemma update_rows_Cons:
  "update_rows ((a, b) # tbl) k v = (if a = k then (a, v) else (a, b)) # update_rows tbl k v"
  by (simp add: update_rows_def)

lemma update_rows_Nil: "update_rows [] k v = []"
  by (simp add: update_rows_def)

lemma map_fst_update_rows: "map fst (update_rows tbl k v) = map fst tbl"
  by (induction tbl) (auto simp: update_rows_Nil update_rows_Cons)

lemma keys_update_rows: "fst ` set (update_rows tbl k v) = fst ` set tbl"
  using map_fst_update_rows [of tbl k v] by (metis set_map)

lemma in_update_rows:
  "(a, b) \<in> set (update_rows tbl k v)
     \<longleftrightarrow> (if a = k then b = v \<and> a \<in> fst ` set tbl else (a, b) \<in> set tbl)"
proof (induction tbl)
  case Nil
  then show ?case by (simp add: update_rows_def)
next
  case (Cons r tbl)
  obtain a' b' where r: "r = (a', b')" by (cases r)
  from Cons.IH show ?case unfolding r update_rows_Cons by auto
qed

lemma key_holds_upsert: "key_holds (upsert tbl k v) k v"
proof (cases "count_key tbl k = 0")
  case True
  then have "k \<notin> fst ` set tbl" by (simp add: count_key_0)
  then have "\<forall>v'. (k, v') \<notin> set tbl" by force
  with True show ?thesis by (simp add: key_holds_def upsert_def insert_row_def)
next
  case False
  then have "k \<in> fst ` set tbl" by (simp add: count_key_0)
  with False show ?thesis
    by (simp add: key_holds_def upsert_def keys_update_rows in_update_rows)
qed

lemma key_holds_upsert_other:
  assumes "k' \<noteq> k" and "key_holds tbl k v"
  shows "key_holds (upsert tbl k' v') k v"
proof (cases "count_key tbl k' = 0")
  case True
  with assms show ?thesis by (auto simp: key_holds_def upsert_def insert_row_def)
next
  case False
  with assms show ?thesis
    by (simp add: key_holds_def upsert_def keys_update_rows in_update_rows)
qed

lemma key_holds_fold_other:
  "k \<notin> fst ` set us \<Longrightarrow> key_holds tbl k v
     \<Longrightarrow> key_holds (fold (\<lambda>(k, v) t. upsert t k v) us tbl) k v"
  by (induction us arbitrary: tbl) (auto simp: key_holds_upsert_other)

lemma key_holds_fold:
  "distinct (map fst us) \<Longrightarrow> (k, v) \<in> set us
     \<Longrightarrow> key_holds (fold (\<lambda>(k, v) t. upsert t k v) us tbl) k v"
proof (induction us arbitrary: tbl)
  case Nil
  then show ?case by simp
next
  case (Cons u us)
  obtain k0 v0 where u: "u = (k0, v0)" by (cases u)
  show ?case
  proof (cases "(k, v) = u")
    case True
    with Cons.prems u have "k \<notin> fst ` set us" by auto
    with True u show ?thesis
      by (simp add: key_holds_fold_other key_holds_upsert)
  next
    case False
    with Cons.prems have "(k, v) \<in> set us" "distinct (map fst us)" by auto
    with Cons.IH u show ?thesis by simp
  qed
qed

lemma distinct_auth_updates: "distinct (map fst (auth_updates em rt))"
  by (cases em; cases rt) (auto simp: auth_updates_def)

lemma token_rows_in_auth_updates:
  "token_valid (Some t) \<Longrightarrow> k \<in> set token_alias_keys \<Longrightarrow> (k, t) \<in> set (auth_updates em (Some t))"
  by (auto simp: auth_updates_def token_alias_keys_def)

text \<open>
  C10: \<open>update_auth\<close> does not look at its argument \<open>access_token\<close>: two calls that
  differ in it only return the same result and the same table.  With a valid
  \<open>refresh_token\<close> and no fault, each of the five token keys has a row, and every row
  under such a key holds the \<open>refresh_token\<close>.
\<close>

theorem update_auth_ignores_access_token:
  "update_auth tbl fault em a1 rt = update_auth tbl fault em a2 rt
   \<and> (token_valid (Some t) \<longrightarrow>
        (\<forall>k \<in> set token_alias_keys.
           key_holds (snd (update_auth tbl NoFault em a1 (Some t))) k t))"
proof (intro conjI impI ballI)
  show "update_auth tbl fault em a1 rt = update_auth tbl fault em a2 rt"
    by (simp add: update_auth_def)
next
  fix k
  assume "token_valid (Some t)" "k \<in> set token_alias_keys"
  then have "(k, t) \<in> set (auth_updates em (Some t))"
    by (rule token_rows_in_auth_updates)
  then show "key_holds (snd (update_auth tbl NoFault em a1 (Some t))) k t"
    by (simp add: update_auth_NoFault key_holds_fold distinct_auth_updates)
qed

theorem update_auth_ignores_access_token_witness:
  "token_valid (Some ''ey.x'')
   \<and> key_holds (snd (update_auth [(''cursorAuth/accessToken'', ''old'')] NoFault
         (Some ''a@b.com'') (Some ''other'') (Some ''ey.x''))) ''cursorAuth/accessToken'' ''ey.x''
   \<and> update_auth [(''cursorAuth/accessToken'', ''old'')] NoFault
         (Some ''a@b.com'') (Some ''other'') (Some ''ey.x'')
       = update_auth [(''cursorAuth/accessToken'', ''old'')] NoFault
         (Some ''a@b.com'') None (Some ''ey.x'')"
proof -
  have tv: "token_valid (Some ''ey.x'')"
    by (simp add: token_valid_def startswith_def)
  have k: "''cursorAuth/accessToken'' \<in> set token_alias_keys"
    by (simp add: token_alias_keys_def)
  from tv k update_auth_ignores_access_token [of "[(''cursorAuth/accessToken'', ''old'')]" NoFault
      "Some ''a@b.com''" "Some ''other''" "Some ''ey.x''" None "''ey.x''"]
  show ?thesis by blast
qed

section \<open>The events of one attempt\<close>

lemma attempt_body_RequestError:
  "primary x = RequestError \<Longrightarrow>
   attempt_body x a tbl = ([Fetch a], if a < 2 then Continue else Return False, tbl)"
  by (simp add: attempt_body_def max_retries_def)

lemma attempt_body_events:
  "attempt_body x a tbl = (evs, st, tbl') \<Longrightarrow> e \<in> set evs \<Longrightarrow>
   e = Fetch a \<or> e = Refresh a \<or> e = Commit a True \<or> e = Commit a False"
  by (auto simp: attempt_body_def Let_def
      split: primary_response.splits prod.splits option.splits if_splits)

lemma attempt_body_fetch:
  "attempt_body x a tbl = (evs, st, tbl') \<Longrightarrow> Fetch a \<in> set evs \<and> fetches evs = 1"
  by (auto simp: attempt_body_def Let_def fetches_def
      split: primary_response.splits prod.splits option.splits if_splits)

lemma attempt_body_commit_failed:
  "attempt_body x a tbl = (evs, st, tbl') \<Longrightarrow> Commit a' False \<in> set evs \<Longrightarrow> st = Continue"
  by (auto simp: attempt_body_def Let_def
      split: primary_response.splits prod.splits option.splits if_splits)

lemma attempt_body_commit_ok:
  "attempt_body x a tbl = (evs, st, tbl') \<Longrightarrow>
   (Commit a' True \<in> set evs \<longleftrightarrow> st = Return True \<and> a' = a)
   \<and> (st = Return True \<longrightarrow> evs \<noteq> [] \<and> last evs = Commit a True)"
  by (auto simp: attempt_body_def Let_def
      split: primary_response.splits prod.splits option.splits if_splits)

section \<open>The events of the loop\<close>

lemma attempts_list: "[0..<max_retries] = [0, 1, 2]"
  by (simp add: max_retries_def upt_rec)

lemma retry_loop_fetches:
  "fetches (fst (retry_loop env as tbl)) \<le> length as"
proof (induction as arbitrary: tbl)
  case Nil
  then show ?case by (simp add: fetches_def)
next
  case (Cons a as)
  obtain evs st tbl' where b: "attempt_body (env a) a tbl = (evs, st, tbl')"
    by (cases "attempt_body (env a) a tbl")
  then have f: "fetches evs = 1" by (simp add: attempt_body_fetch)
  show ?case
  proof (cases st)
    case Continue
    obtain evs' r tbl'' where l: "retry_loop env as tbl' = (evs', r, tbl'')"
      by (cases "retry_loop env as tbl'")
    from Cons.IH [of tbl'] l have "fetches evs' \<le> length as" by simp
    with b Continue l f show ?thesis by (simp add: fetches_def)
  next
    case (Return r)
    with b f show ?thesis by simp
  qed
qed

lemma retry_loop_success:
  "retry_loop env as tbl = (evs, r, tbl') \<Longrightarrow>
   (r \<longleftrightarrow> (\<exists>a. Commit a True \<in> set evs))
   \<and> (\<forall>a. Commit a True \<in> set evs \<longrightarrow> last evs = Commit a True)"
proof (induction as arbitrary: tbl evs r tbl')
  case Nil
  then show ?case by auto
next
  case (Cons a as)
  obtain evs0 st tbl0 where b: "attempt_body (env a) a tbl = (evs0, st, tbl0)"
    by (cases "attempt_body (env a) a tbl")
  note ok = attempt_body_commit_ok [OF b]
  show ?case
  proof (cases st)
    case Continue
    obtain evs1 r1 tbl1 where l: "retry_loop env as tbl0 = (evs1, r1, tbl1)"
      by (cases "retry_loop env as tbl0")
    from Cons.prems b Continue l have e: "evs = evs0 @ evs1" "r = r1" by auto
    from ok Continue have no: "\<forall>a'. Commit a' True \<notin> set evs0" by simp
    from Cons.IH [OF l] have ih: "r1 \<longleftrightarrow> (\<exists>a. Commit a True \<in> set evs1)"
      "\<forall>a. Commit a True \<in> set evs1 \<longrightarrow> last evs1 = Commit a True" by auto
    show ?thesis
    proof (intro conjI allI impI)
      from ih(1) no e show "r \<longleftrightarrow> (\<exists>a. Commit a True \<in> set evs)" by auto
    next
      fix a' assume "Commit a' True \<in> set evs"
      with no e have m: "Commit a' True \<in> set evs1" by auto
      then have "evs1 \<noteq> []" by auto
      with ih(2) m e show "last evs = Commit a' True" by simp
    qed
  next
    case (Return r0)
    with Cons.prems b have e: "evs = evs0" "r = r0" by auto
    from ok Return e show ?thesis by (cases r0) auto
  qed
qed

lemma retry_loop_3:
  assumes b0: "attempt_body (env 0) 0 tbl = (e0, s0, t0)"
    and b1: "attempt_body (env 1) 1 t0 = (e1, s1, t1)"
    and b2: "attempt_body (env 2) 2 t1 = (e2, s2, t2)"
  shows "retry_loop env [0, 1, 2] tbl =
     (case s0 of Return r \<Rightarrow> (e0, r, t0)
      | Continue \<Rightarrow>
          (case s1 of Return r \<Rightarrow> (e0 @ e1, r, t1)
           | Continue \<Rightarrow>
               (case s2 of Return r \<Rightarrow> (e0 @ e1 @ e2, r, t2)
                | Continue \<Rightarrow> (e0 @ e1 @ e2, False, t2))))"
  using b0 b1 b2 by (simp split: step.splits)

lemma retry_loop_commit_failed:
  assumes l: "retry_loop env [0, 1, 2] tbl = (evs, r, tbl')"
    and c: "Commit a False \<in> set evs"
  shows "(a < 2 \<longrightarrow> Fetch (Suc a) \<in> set evs) \<and> (a = 2 \<longrightarrow> \<not> r)"
proof -
  obtain e0 s0 t0 where b0: "attempt_body (env 0) 0 tbl = (e0, s0, t0)"
    by (cases "attempt_body (env 0) 0 tbl")
  obtain e1 s1 t1 where b1: "attempt_body (env 1) 1 t0 = (e1, s1, t1)"
    by (cases "attempt_body (env 1) 1 t0")
  obtain e2 s2 t2 where b2: "attempt_body (env 2) 2 t1 = (e2, s2, t2)"
    by (cases "attempt_body (env 2) 2 t1")
  note ev0 = attempt_body_events [OF b0] and ev1 = attempt_body_events [OF b1]
    and ev2 = attempt_body_events [OF b2]
  note cf0 = attempt_body_commit_failed [OF b0] and cf1 = attempt_body_commit_failed [OF b1]
    and cf2 = attempt_body_commit_failed [OF b2]
  from attempt_body_fetch [OF b1] have f1: "Fetch (Suc 0) \<in> set e1" by simp
  from attempt_body_fetch [OF b2] have f2: "Fetch (Suc (Suc 0)) \<in> set e2"
    by (simp add: numeral_2_eq_2)
  note l3 = retry_loop_3 [OF b0 b1 b2]
  have in0: "Commit a False \<in> set e0 \<Longrightarrow> a = 0 \<and> s0 = Continue"
    using ev0 [of "Commit a False"] cf0 [of a] by auto
  have in1: "Commit a False \<in> set e1 \<Longrightarrow> a = 1 \<and> s1 = Continue"
    using ev1 [of "Commit a False"] cf1 [of a] by auto
  have in2: "Commit a False \<in> set e2 \<Longrightarrow> a = 2 \<and> s2 = Continue"
    using ev2 [of "Commit a False"] cf2 [of a] by auto
  show ?thesis
  proof (cases s0)
    case (Return r0)
    with l l3 have "evs = e0" by simp
    with c in0 Return show ?thesis by auto
  next
    case c0: Continue
    show ?thesis
    proof (cases s1)
      case (Return r1)
      with l l3 c0 have "evs = e0 @ e1" by simp
      with c in0 in1 Return f1 show ?thesis by auto
    next
      case c1: Continue
      show ?thesis
      proof (cases s2)
        case (Return r2)
        with l l3 c0 c1 have "evs = e0 @ e1 @ e2" by simp
        with c in0 in1 in2 Return f1 f2 show ?thesis by auto
      next
        case c2: Continue
        with l l3 c0 c1 have "evs = e0 @ e1 @ e2" "r = False" by simp_all
        with c in0 in1 in2 f1 f2 show ?thesis by auto
      qed
    qed
  qed
qed

lemma update_cursor_auth_run:
  assumes "truthy (get_token (token_file w))"
  shows "\<exists>evs r tbl. retry_loop env [0, 1, 2] (db (snd (clear_auth_info w cf))) = (evs, r, tbl)
     \<and> update_cursor_auth env cf w
         = \<lparr>result = r, events = evs, final = (snd (clear_auth_info w cf))\<lparr>db := tbl\<rparr>\<rparr>"
proof -
  obtain c w1 where cl: "clear_auth_info w cf = (c, w1)"
    by (cases "clear_auth_info w cf")
  obtain evs r tbl where l: "retry_loop env [0, 1, 2] (db w1) = (evs, r, tbl)"
    by (cases "retry_loop env [0, 1, 2] (db w1)")
  from assms cl l have "update_cursor_auth env cf w
      = \<lparr>result = r, events = evs, final = w1\<lparr>db := tbl\<rparr>\<rparr>"
    unfolding update_cursor_auth_def attempts_list
    by (simp del: retry_loop.simps)
  with cl l show ?thesis by (simp del: retry_loop.simps)
qed

lemma update_cursor_auth_no_token:
  "\<not> truthy (get_token (token_file w)) \<Longrightarrow>
   update_cursor_auth env cf w = \<lparr>result = False, events = [], final = w\<rparr>"
  by (simp add: update_cursor_auth_def)

section \<open>Example runs\<close>

lemma update_cursor_auth_loop:
  assumes "truthy (get_token (token_file w))"
  shows "events (update_cursor_auth env cf w)
       = fst (retry_loop env [0, 1, 2] (db (snd (clear_auth_info w cf))))"
    and "result (update_cursor_auth env cf w)
       = fst (snd (retry_loop env [0, 1, 2] (db (snd (clear_auth_info w cf)))))"
  using update_cursor_auth_run [OF assms, of env cf] by auto

lemma seeded_token: "truthy (get_token (token_file seeded))"
  by (simp add: seeded_def get_token_def strip_def isspace_def truthy_def)

lemma attempt_body_usable_account:
  "attempt_body (answer usable_account fault) a tbl =
     (case update_auth tbl fault (Some ''a@b.com'') (Some ''ey.xyz'') (Some ''ey.xyz'') of
        (success, tbl') \<Rightarrow>
          ([Fetch a, Commit a success], if success then Return True else Continue, tbl'))"
  by (simp add: attempt_body_def answer_def usable_account_def resolve_token_def
      token_valid_def startswith_def account_unusable_def pull_count_of_def truthy_def Let_def)

lemma update_auth_FailAt_1: "update_auth tbl (FailAt (Suc 0)) em a rt = (False, tbl)"
  by (rule update_auth_fault_before_commit) simp

lemma loop_network_down:
  "retry_loop network_down [0, 1, 2] tbl = ([Fetch 0, Fetch 1, Fetch 2], False, tbl)"
  by (simp add: attempt_body_RequestError network_down_def)

lemma loop_network_down_once:
  "fst (retry_loop network_down_once [0, 1, 2] tbl) = [Fetch 0, Fetch 1, Commit 1 True]"
  "fst (snd (retry_loop network_down_once [0, 1, 2] tbl)) = True"
  by (simp_all add: network_down_once_def network_down_def attempt_body_RequestError
      attempt_body_usable_account update_auth_NoFault)

lemma loop_commit_fails_once:
  "fst (retry_loop commit_fails_once [0, 1, 2] tbl)
     = [Fetch 0, Commit 0 False, Fetch 1, Commit 1 True]"
  "fst (snd (retry_loop commit_fails_once [0, 1, 2] tbl)) = True"
  by (simp_all add: commit_fails_once_def attempt_body_usable_account update_auth_FailAt_1
      update_auth_NoFault)

lemma loop_commit_fails_always:
  "fst (retry_loop commit_fails_always [0, 1, 2] tbl)
     = [Fetch 0, Commit 0 False, Fetch 1, Commit 1 False, Fetch 2, Commit 2 False]"
  "fst (snd (retry_loop commit_fails_always [0, 1, 2] tbl)) = False"
  by (simp_all add: commit_fails_always_def attempt_body_usable_account update_auth_FailAt_1)

section \<open>At most three attempts\<close>

text \<open>
  C2: no run asks the server for an account more than three times.  When a token is
  there and each of the three requests ends in a network error, the run fails after
  exactly the three requests.  A network error in the first or second attempt goes on
  with the next attempt; in the third it ends the run in failure.
\<close>

theorem three_attempts_on_network_errors:
  "fetches (events (update_cursor_auth env cf w)) \<le> 3
   \<and> (truthy (get_token (token_file w)) \<and> (\<forall>a<3. primary (env a) = RequestError) \<longrightarrow>
        result (update_cursor_auth env cf w) = False
        \<and> events (update_cursor_auth env cf w) = [Fetch 0, Fetch 1, Fetch 2])
   \<and> (primary x = RequestError \<longrightarrow>
        attempt_body x a tbl = ([Fetch a], if a < 2 then Continue else Return False, tbl))"
proof (intro conjI impI)
  show "fetches (events (update_cursor_auth env cf w)) \<le> 3"
  proof (cases "truthy (get_token (token_file w))")
    case True
    from update_cursor_auth_run [OF True, of env cf] obtain evs r tbl where
      l: "retry_loop env [0, 1, 2] (db (snd (clear_auth_info w cf))) = (evs, r, tbl)"
      and u: "events (update_cursor_auth env cf w) = evs"
      by auto
    from retry_loop_fetches [of env "[0, 1, 2]" "db (snd (clear_auth_info w cf))"] l
    have "fetches evs \<le> 3" by simp
    with u show ?thesis by simp
  next
    case False
    then show ?thesis by (simp add: update_cursor_auth_no_token fetches_def)
  qed
next
  assume h: "truthy (get_token (token_file w)) \<and> (\<forall>a<3. primary (env a) = RequestError)"
  then have p: "primary (env 0) = RequestError" "primary (env 1) = RequestError"
    "primary (env 2) = RequestError" by auto
  from h update_cursor_auth_run [of w env cf] obtain evs r tbl where
    l: "retry_loop env [0, 1, 2] (db (snd (clear_auth_info w cf))) = (evs, r, tbl)"
    and u: "events (update_cursor_auth env cf w) = evs" "result (update_cursor_auth env cf w) = r"
    by auto
  from p have "retry_loop env [0, 1, 2] (db (snd (clear_auth_info w cf)))
      = ([Fetch 0, Fetch 1, Fetch 2], False, db (snd (clear_auth_info w cf)))"
    by (simp add: attempt_body_RequestError)
  with l u show "result (update_cursor_auth env cf w) = False"
    and "events (update_cursor_auth env cf w) = [Fetch 0, Fetch 1, Fetch 2]" by simp_all
next
  assume "primary x = RequestError"
  then show "attempt_body x a tbl = ([Fetch a], if a < 2 then Continue else Return False, tbl)"
    by (rule attempt_body_RequestError)
qed

theorem three_attempts_on_network_errors_witness:
  "truthy (get_token (token_file seeded))
   \<and> primary (network_down 0) = RequestError \<and> primary (network_down 1) = RequestError
   \<and> primary (network_down 2) = RequestError
   \<and> result (update_cursor_auth network_down NoFault seeded) = False
   \<and> events (update_cursor_auth network_down NoFault seeded) = [Fetch 0, Fetch 1, Fetch 2]
   \<and> fetches (events (update_cursor_auth network_down NoFault seeded)) = 3
   \<and> events (update_cursor_auth network_down_once NoFault seeded)
       = [Fetch 0, Fetch 1, Commit 1 True]"
proof -
  note t = seeded_token
  have n: "\<forall>a<3. primary (network_down a) = RequestError"
    by (simp add: network_down_def)
  have o: "events (update_cursor_auth network_down_once NoFault seeded)
      = [Fetch 0, Fetch 1, Commit 1 True]"
    unfolding update_cursor_auth_loop [OF seeded_token] loop_network_down_once by simp
  from three_attempts_on_network_errors [of network_down NoFault seeded "network_down 0" 0 "[]"]
    t n o
  show ?thesis by (simp add: fetches_def network_down_def)
qed

section \<open>A failed commit\<close>

text \<open>
  C5, as stated, fails: when \<open>update_auth\<close> fails in the first attempt and succeeds in
  the second, the run asks for another account after the failed commit, commits it, and
  ends in success.
\<close>

theorem failed_commit_is_terminal_counterexample:
  "result (update_cursor_auth commit_fails_once NoFault seeded) = True
   \<and> events (update_cursor_auth commit_fails_once NoFault seeded)
       = [Fetch 0, Commit 0 False, Fetch 1, Commit 1 True]"
  unfolding update_cursor_auth_loop [OF seeded_token] loop_commit_fails_once by simp

text \<open>
  C5, amended: a failure of \<open>update_auth\<close> ends the run in failure only in the third
  attempt; after one in the first or second attempt the run asks the server for the next
  account.  The run ends in success exactly when some call of \<open>update_auth\<close> succeeded,
  and nothing is asked for or committed after that call.
\<close>

theorem failed_commit_retries_until_last_attempt:
  "(Commit a False \<in> set (events (update_cursor_auth env cf w)) \<and> a < 2 \<longrightarrow>
      Fetch (Suc a) \<in> set (events (update_cursor_auth env cf w)))
   \<and> (Commit 2 False \<in> set (events (update_cursor_auth env cf w)) \<longrightarrow>
        \<not> result (update_cursor_auth env cf w))
   \<and> (result (update_cursor_auth env cf w)
        \<longleftrightarrow> (\<exists>a'. Commit a' True \<in> set (events (update_cursor_auth env cf w))))
   \<and> (Commit a True \<in> set (events (update_cursor_auth env cf w)) \<longrightarrow>
        last (events (update_cursor_auth env cf w)) = Commit a True)"
proof (cases "truthy (get_token (token_file w))")
  case True
  from update_cursor_auth_run [OF True, of env cf] obtain evs r tbl where
    l: "retry_loop env [0, 1, 2] (db (snd (clear_auth_info w cf))) = (evs, r, tbl)"
    and u: "events (update_cursor_auth env cf w) = evs" "result (update_cursor_auth env cf w) = r"
    by auto
  note s = retry_loop_success [OF l]
  have f: "Commit a False \<in> set evs \<Longrightarrow> a < 2 \<Longrightarrow> Fetch (Suc a) \<in> set evs"
    using retry_loop_commit_failed [OF l, of a] by simp
  have g: "Commit 2 False \<in> set evs \<Longrightarrow> \<not> r"
    using retry_loop_commit_failed [OF l, of 2] by simp
  from s f g show ?thesis unfolding u by blast
next
  case False
  then show ?thesis by (simp add: update_cursor_auth_no_token)
qed

theorem failed_commit_retries_until_last_attempt_witness:
  "Commit 0 False \<in> set (events (update_cursor_auth commit_fails_once NoFault seeded))
   \<and> Fetch (Suc 0) \<in> set (events (update_cursor_auth commit_fails_once NoFault seeded))
   \<and> Commit 1 True \<in> set (events (update_cursor_auth commit_fails_once NoFault seeded))
   \<and> last (events (update_cursor_auth commit_fails_once NoFault seeded)) = Commit 1 True
   \<and> result (update_cursor_auth commit_fails_once NoFault seeded)
   \<and> Commit 2 False \<in> set (events (update_cursor_auth commit_fails_always NoFault seeded))
   \<and> \<not> result (update_cursor_auth commit_fails_always NoFault seeded)"
proof -
  have e1: "events (update_cursor_auth commit_fails_once NoFault seeded)
      = [Fetch 0, Commit 0 False, Fetch 1, Commit 1 True]"
    unfolding update_cursor_auth_loop [OF seeded_token] loop_commit_fails_once by simp
  have e2: "events (update_cursor_auth commit_fails_always NoFault seeded)
      = [Fetch 0, Commit 0 False, Fetch 1, Commit 1 False, Fetch 2, Commit 2 False]"
    unfolding update_cursor_auth_loop [OF seeded_token] loop_commit_fails_always by simp
  from failed_commit_retries_until_last_attempt [of 0 commit_fails_once NoFault seeded]
    failed_commit_retries_until_last_attempt [of 1 commit_fails_once NoFault seeded]
    failed_commit_retries_until_last_attempt [of 2 commit_fails_always NoFault seeded]
  show ?thesis unfolding e1 e2 by auto
qed

section \<open>Which accounts are skipped\<close>







section \<open>The token file after clearing\<close>

text \<open>
  C9: every call of \<open>clear_auth_info\<close> removes the token file, whatever the database
  does, and without a fault it removes the rows of the namespace as well.  So after a
  run that had a token and got to clearing, \<open>get_token\<close> returns \<open>None\<close>, a further
  run stops at once without asking the server, and only \<open>save_token\<close> brings a token
  back.
\<close>

theorem clear_removes_token_file:
  "get_token (token_file (snd (clear_auth_info w fault))) = None
   \<and> select_auth_rows (db (snd (clear_auth_info w NoFault))) = []
   \<and> (truthy (get_token (token_file w)) \<longrightarrow>
        get_token (token_file (final (update_cursor_auth env cf w))) = None
        \<and> update_cursor_auth env' cf' (final (update_cursor_auth env cf w))
            = \<lparr>result = False, events = [], final = final (update_cursor_auth env cf w)\<rparr>
        \<and> get_token (save_token t (token_file (final (update_cursor_auth env cf w))))
            = Some (strip (universal_newlines t)))"
proof (intro conjI impI)
  show "get_token (token_file (snd (clear_auth_info w fault))) = None"
    by (simp add: clear_auth_info_token_file get_token_def)
  show "select_auth_rows (db (snd (clear_auth_info w NoFault))) = []"
    by (simp add: clear_auth_info_NoFault select_after_delete)
next
  assume t: "truthy (get_token (token_file w))"
  from update_cursor_auth_run [OF t, of env cf] obtain tbl where
    "final (update_cursor_auth env cf w) = (snd (clear_auth_info w cf))\<lparr>db := tbl\<rparr>"
    by auto
  then have f: "token_file (final (update_cursor_auth env cf w)) = None"
    by (simp add: clear_auth_info_token_file)
  then show g: "get_token (token_file (final (update_cursor_auth env cf w))) = None"
    by (simp add: get_token_def)
  then have "\<not> truthy (get_token (token_file (final (update_cursor_auth env cf w))))"
    by (simp add: truthy_def)
  then show "update_cursor_auth env' cf' (final (update_cursor_auth env cf w))
      = \<lparr>result = False, events = [], final = final (update_cursor_auth env cf w)\<rparr>"
    by (rule update_cursor_auth_no_token)
  show "get_token (save_token t (token_file (final (update_cursor_auth env cf w))))
      = Some (strip (universal_newlines t))"
    by (simp add: get_token_def save_token_def)
qed

theorem clear_removes_token_file_witness:
  "truthy (get_token (token_file seeded))
   \<and> get_token (token_file (final (update_cursor_auth network_down_once NoFault seeded))) = None
   \<and> events (update_cursor_auth network_down_once NoFault
        (final (update_cursor_auth network_down_once NoFault seeded))) = []
   \<and> get_token (token_file (snd (clear_auth_info seeded (FailAt 1)))) = None"
  using seeded_token
    clear_removes_token_file [of seeded "FailAt 1" network_down_once NoFault network_down_once
      NoFault "[]"]
  by simp

end
